theory Spec2Isabelle
  imports Main "HOL-Library.AList" "HOL-Library.Sublist"
begin

section \<open>The PagerDuty button platform (custom\_components/pagerduty/button.py)\<close>

subsection \<open>Data model\<close>

text \<open>
  An incident of the coordinator's snapshot is a Python dict read only through
  \<^verbatim>\<open>.get\<close>. For \<^verbatim>\<open>"id"\<close>, \<^verbatim>\<open>"status"\<close> and \<^verbatim>\<open>"incident_number"\<close> the code
  calls \<^verbatim>\<open>.get(key)\<close>, which is \<^verbatim>\<open>None\<close> both for a missing key and for a JSON
  null: these fields hold what that call returns. For \<^verbatim>\<open>"title"\<close>, \<^verbatim>\<open>"service"\<close>
  and the service's \<^verbatim>\<open>"summary"\<close> the code passes a default, which a missing key
  takes and a null does not, so these fields tell the three cases apart.
\<close>

datatype 'a json_key = Absent | Null | Present 'a

record service =
  summary :: "string json_key"

record incident =
  inc_id :: "string option"
  inc_status :: "string option"
  inc_incident_number :: "int option"
  inc_title :: "string json_key"
  inc_service :: "service json_key"

text \<open>
  The fields \<^verbatim>\<open>PagerDutyAcknowledgeButton.__init__\<close> stores on the object; each of
  the first four may be \<^verbatim>\<open>None\<close>.
\<close>

record button =
  incident_id :: "string option"
  incident_number :: "int option"
  incident_title :: "string option"
  service_name :: "string option"
  default_from_email :: string
  attr_name :: string
  attr_unique_id :: string

text \<open>An entry of the entity registry, as far as the platform reads it.\<close>

record entity =
  entity_id :: string
  unique_id :: string

text \<open>One call of \<^verbatim>\<open>session.rput(url, json=..., headers=...)\<close>.\<close>

record request =
  url :: string
  json :: "(string \<times> string) list"
  headers :: "(string \<times> string) list"

datatype py_error = KeyError | AttributeError | RequestError string

text \<open>
  The transport session is an external collaborator: \<^verbatim>\<open>rput\<close> either returns
  (\<open>None\<close>) or raises (\<open>Some e\<close>).
\<close>

type_synonym session = "request \<Rightarrow> py_error option"

text \<open>
  The mutable state the platform works on: the closure variable
  \<^verbatim>\<open>tracked_buttons\<close> (a dict, kept in insertion order) and a log of every
  effect on a collaborator, in the order the code issues it.
\<close>

record hass =
  tracked_buttons :: "(string option \<times> button) list"
  added_entities :: "button list"
  remove_tasks :: "button list"
  rput_calls :: "request list"
  refresh_requests :: nat

subsection \<open>Reading keys and formatting\<close>

text \<open>
  \<^verbatim>\<open>d.get(key, default)\<close>: the default for a missing key, \<^verbatim>\<open>None\<close> for a null,
  the value otherwise.
\<close>

definition get_default :: "'a json_key \<Rightarrow> 'a \<Rightarrow> 'a option" where
  "get_default k d = (case k of Absent \<Rightarrow> Some d | Null \<Rightarrow> None | Present v \<Rightarrow> Some v)"

definition digit_char :: "nat \<Rightarrow> char" where
  "digit_char d = ''0123456789'' ! d"

fun str_nat :: "nat \<Rightarrow> string" where
  "str_nat n = (if n < 10 then [digit_char n] else str_nat (n div 10) @ [digit_char (n mod 10)])"

declare str_nat.simps [simp del]

text \<open>\<^verbatim>\<open>str\<close> of a Python int.\<close>

definition str_int :: "int \<Rightarrow> string" where
  "str_int n = (if n < 0 then CHR ''-'' # str_nat (nat (- n)) else str_nat (nat n))"

text \<open>The number a string of decimal digits stands for.\<close>

definition digit_value :: "char \<Rightarrow> nat" where
  "digit_value c = of_char c - 48"

definition dec_value :: "string \<Rightarrow> nat" where
  "dec_value s = foldl (\<lambda>a c. 10 * a + digit_value c) 0 s"

text \<open>
  What an f-string renders for a value that came from \<^verbatim>\<open>.get(key)\<close>: the value
  itself, or \<^verbatim>\<open>None\<close>.
\<close>

definition fstr :: "string option \<Rightarrow> string" where
  "fstr v = (case v of None \<Rightarrow> ''None'' | Some s \<Rightarrow> s)"

definition fstr_int :: "int option \<Rightarrow> string" where
  "fstr_int v = (case v of None \<Rightarrow> ''None'' | Some n \<Rightarrow> str_int n)"

subsection \<open>The button object\<close>

definition ack_prefix :: string where
  "ack_prefix = ''pagerduty_ack_''"

text \<open>
  \<^verbatim>\<open>PagerDutyAcknowledgeButton.__init__\<close> (lines 99 to 115). Line 106 is
  \<^verbatim>\<open>incident.get("service", {}).get("summary", "Unknown")\<close>: for a missing
  \<^verbatim>\<open>"service"\<close> the second \<^verbatim>\<open>.get\<close> reads the empty dict, and for a null one
  it is called on \<^verbatim>\<open>None\<close> and raises \<^verbatim>\<open>AttributeError\<close>, so that no object is
  made.
\<close>

definition button_init :: "incident \<Rightarrow> string \<Rightarrow> py_error + button" where
  "button_init inc email =
     (case (case inc_service inc of
              Absent \<Rightarrow> Inr (Some ''Unknown'')
            | Null \<Rightarrow> Inl AttributeError
            | Present s \<Rightarrow> Inr (get_default (summary s) ''Unknown'')) of
        Inl e \<Rightarrow> Inl e
      | Inr name \<Rightarrow>
          Inr \<lparr> incident_id = inc_id inc,
                incident_number = inc_incident_number inc,
                incident_title = get_default (inc_title inc) ''Unknown'',
                service_name = name,
                default_from_email = email,
                attr_name = ''Acknowledge Incident #'' @ fstr_int (inc_incident_number inc),
                attr_unique_id = ack_prefix @ fstr (inc_id inc) \<rparr>)"

text \<open>\<^verbatim>\<open>extra_state_attributes\<close> (lines 127 to 135), in the order of the dict's keys.\<close>

definition extra_state_attributes ::
  "button \<Rightarrow> string option \<times> int option \<times> string option \<times> string option" where
  "extra_state_attributes b =
     (incident_id b, incident_number b, incident_title b, service_name b)"

text \<open>
  \<^verbatim>\<open>available\<close> (lines 137 to 145): the loop returns at the first incident whose
  id equals the object's, and \<^verbatim>\<open>False\<close> when it runs off the end.
\<close>

fun available_scan :: "string option \<Rightarrow> incident list \<Rightarrow> bool" where
  "available_scan iid [] = False"
| "available_scan iid (inc # incs) =
     (if inc_id inc = iid then inc_status inc = Some ''triggered''
      else available_scan iid incs)"

definition available :: "button \<Rightarrow> incident list \<Rightarrow> bool" where
  "available b incidents = available_scan (incident_id b) incidents"

subsection \<open>The acknowledge action\<close>

text \<open>\<^verbatim>\<open>_acknowledge_incident\<close> (lines 174 to 190): one \<^verbatim>\<open>rput\<close>, whose exception propagates.\<close>

definition acknowledge_request :: "button \<Rightarrow> request" where
  "acknowledge_request b =
     \<lparr> url = ''/incidents/'' @ fstr (incident_id b),
       json = [(''type'', ''incident''), (''status'', ''acknowledged'')],
       headers =
         (if default_from_email b \<noteq> [] then [(''From'', default_from_email b)] else []) \<rparr>"

definition acknowledge_incident :: "session \<Rightarrow> button \<Rightarrow> hass \<Rightarrow> (py_error + unit) \<times> hass" where
  "acknowledge_incident rput b h =
     (let req = acknowledge_request b;
          h' = h\<lparr>rput_calls := rput_calls h @ [req]\<rparr>
      in case rput req of
           Some e \<Rightarrow> (Inl e, h')
         | None \<Rightarrow> (Inr (), h'))"

text \<open>
  \<^verbatim>\<open>async_press\<close> (lines 147 to 172): the refresh is requested after the call
  returned; the handler of the \<^verbatim>\<open>try\<close> logs and raises the exception again.
\<close>

definition async_request_refresh :: "hass \<Rightarrow> hass" where
  "async_request_refresh h = h\<lparr>refresh_requests := Suc (refresh_requests h)\<rparr>"

definition async_press :: "session \<Rightarrow> button \<Rightarrow> hass \<Rightarrow> (py_error + unit) \<times> hass" where
  "async_press rput b h =
     (case acknowledge_incident rput b h of
        (Inl e, h') \<Rightarrow> (Inl e, h')
      | (Inr u, h') \<Rightarrow> (Inr (), async_request_refresh h'))"

subsection \<open>The reconciliation pass\<close>

text \<open>
  An exception leaves \<^verbatim>\<open>async_add_remove_buttons\<close> with the dict as it is at that
  moment: the error case carries the state reached.
\<close>

type_synonym 'a raising = "(py_error \<times> hass) + 'a"

text \<open>
  The first loop (lines 58 to 73), with the set \<^verbatim>\<open>triggered_incident_ids\<close> and
  the state threaded through. The id is added to the set before the constructor is
  called; an exception of the constructor ends the pass there.
\<close>

fun find_triggered ::
  "string \<Rightarrow> incident list \<Rightarrow> string option set \<Rightarrow> hass \<Rightarrow> (string option set \<times> hass) raising" where
  "find_triggered email [] trig h = Inr (trig, h)"
| "find_triggered email (inc # incs) trig h =
     (if inc_status inc = Some ''triggered'' then
        (if map_of (tracked_buttons h) (inc_id inc) = None then
           (case button_init inc email of
              Inl e \<Rightarrow> Inl (e, h)
            | Inr b \<Rightarrow>
                find_triggered email incs (insert (inc_id inc) trig)
                  (h\<lparr>tracked_buttons := AList.update (inc_id inc) b (tracked_buttons h),
                     added_entities := added_entities h @ [b]\<rparr>))
         else find_triggered email incs (insert (inc_id inc) trig) h)
      else find_triggered email incs trig h)"

text \<open>
  The second loop (lines 76 to 84) runs over a copy of the keys; \<^verbatim>\<open>pop\<close> of a
  key that is not in the dict raises \<^verbatim>\<open>KeyError\<close>.
\<close>

fun remove_untriggered :: "string option set \<Rightarrow> string option list \<Rightarrow> hass \<Rightarrow> hass raising" where
  "remove_untriggered trig [] h = Inr h"
| "remove_untriggered trig (k # ks) h =
     (if k \<notin> trig then
        (case map_of (tracked_buttons h) k of
           None \<Rightarrow> Inl (KeyError, h)
         | Some b \<Rightarrow>
             remove_untriggered trig ks
               (h\<lparr>tracked_buttons := AList.delete k (tracked_buttons h),
                  remove_tasks := remove_tasks h @ [b]\<rparr>))
      else remove_untriggered trig ks h)"

definition async_add_remove_buttons :: "string \<Rightarrow> incident list \<Rightarrow> hass \<Rightarrow> hass raising" where
  "async_add_remove_buttons email incidents h =
     (case find_triggered email incidents {} h of
        Inl eh \<Rightarrow> Inl eh
      | Inr (trig, h1) \<Rightarrow> remove_untriggered trig (map fst (tracked_buttons h1)) h1)"

text \<open>The ids the snapshot lists as triggered.\<close>

definition triggered_ids :: "incident list \<Rightarrow> string option set" where
  "triggered_ids incidents =
     inc_id ` {inc \<in> set incidents. inc_status inc = Some ''triggered''}"

definition keys :: "hass \<Rightarrow> string option set" where
  "keys h = fst ` set (tracked_buttons h)"

subsection \<open>The startup sweep\<close>

text \<open>
  \<^verbatim>\<open>async_setup_entry\<close>, lines 19 to 46. The dict comprehension keeps, for each
  unique id, the last entity that has it.
\<close>

definition startswith :: "string \<Rightarrow> string \<Rightarrow> bool" where
  "startswith s p = prefix p s"

fun existing_button_entities :: "entity list \<Rightarrow> (string \<times> entity) list \<Rightarrow> (string \<times> entity) list" where
  "existing_button_entities [] d = d"
| "existing_button_entities (e # es) d =
     (if unique_id e \<noteq> [] \<and> startswith (unique_id e) ack_prefix
      then existing_button_entities es (AList.update (unique_id e) e d)
      else existing_button_entities es d)"

definition current_triggered_ids :: "incident list \<Rightarrow> string set" where
  "current_triggered_ids incidents =
     set (map (\<lambda>inc. ack_prefix @ fstr (inc_id inc))
            (filter (\<lambda>inc. inc_status inc = Some ''triggered'') incidents))"

text \<open>The clean-up loop: the entity ids handed to \<^verbatim>\<open>entity_reg.async_remove\<close>, in order.\<close>

fun remove_orphaned :: "string set \<Rightarrow> (string \<times> entity) list \<Rightarrow> string list" where
  "remove_orphaned cur [] = []"
| "remove_orphaned cur ((u, e) # d) =
     (if u \<notin> cur then entity_id e # remove_orphaned cur d else remove_orphaned cur d)"

definition orphan_sweep :: "entity list \<Rightarrow> incident list \<Rightarrow> string list" where
  "orphan_sweep existing_entities incidents =
     remove_orphaned (current_triggered_ids incidents)
       (existing_button_entities existing_entities [])"

text \<open>
  \<^verbatim>\<open>async_setup_entry\<close> as a whole: the sweep, then \<^verbatim>\<open>tracked_buttons = {}\<close>
  (line 49) and the initial pass (line 87). The result pairs the entity ids removed
  from the registry with the outcome of the pass.
\<close>

definition initial_hass :: hass where
  "initial_hass =
     \<lparr> tracked_buttons = [], added_entities = [], remove_tasks = [],
       rput_calls = [], refresh_requests = 0 \<rparr>"

definition async_setup_entry ::
  "string \<Rightarrow> entity list \<Rightarrow> incident list \<Rightarrow> string list \<times> hass raising" where
  "async_setup_entry email existing_entities incidents =
     (orphan_sweep existing_entities incidents,
      async_add_remove_buttons email incidents initial_hass)"

subsection \<open>Sample data\<close>

text \<open>An incident as the PagerDuty API lists it, with every key present.\<close>

definition sample_incident :: "string \<Rightarrow> string \<Rightarrow> int \<Rightarrow> string \<Rightarrow> incident" where
  "sample_incident i st n t =
     \<lparr> inc_id = Some i, inc_status = Some st, inc_incident_number = Some n,
       inc_title = Present t, inc_service = Present \<lparr> summary = Present ''Checkout'' \<rparr> \<rparr>"



text \<open>A triggered entry whose \<^verbatim>\<open>"service"\<close> is null.\<close>

definition null_service_incident :: incident where
  "null_service_incident =
     \<lparr> inc_id = Some ''N'', inc_status = Some ''triggered'', inc_incident_number = Some 7,
       inc_title = Null, inc_service = Null \<rparr>"

text \<open>The objects made for the incidents A and B, with and without an operator email.\<close>

definition sample_button :: "string \<Rightarrow> int \<Rightarrow> string \<Rightarrow> string \<Rightarrow> string \<Rightarrow> button" where
  "sample_button i n t email name =
     \<lparr> incident_id = Some i, incident_number = Some n,
       incident_title = Some t, service_name = Some ''Checkout'',
       default_from_email = email, attr_name = name,
       attr_unique_id = ''pagerduty_ack_'' @ i \<rparr>"

definition button_A :: button where
  "button_A =
     sample_button ''A'' 13 ''Latency'' ''oncall@example.com'' ''Acknowledge Incident #13''"

definition button_B :: button where
  "button_B = sample_button ''B'' 12 ''CPU high'' [] ''Acknowledge Incident #12''"

definition button_A_plain :: button where
  "button_A_plain = sample_button ''A'' 13 ''Latency'' [] ''Acknowledge Incident #13''"

text \<open>The state after a first pass that saw incident B triggered.\<close>

definition tracking_B :: hass where
  "tracking_B =
     initial_hass \<lparr> tracked_buttons := [(Some ''B'', button_B)], added_entities := [button_B] \<rparr>"

text \<open>A later snapshot: A is newly triggered, B has been acknowledged.\<close>

definition snapshot_AB :: "incident list" where
  "snapshot_AB =
     [sample_incident ''A'' ''triggered'' 13 ''Latency'',
      sample_incident ''B'' ''acknowledged'' 12 ''CPU high'']"

definition after_AB :: hass where
  "after_AB =
     initial_hass
       \<lparr> tracked_buttons := [(Some ''A'', button_A_plain)],
         added_entities := [button_B, button_A_plain],
         remove_tasks := [button_B] \<rparr>"

text \<open>A snapshot in which B is still triggered, under a new title and number.\<close>

definition snapshot_B_retitled :: "incident list" where
  "snapshot_B_retitled = [sample_incident ''B'' ''triggered'' 120 ''CPU very high'']"

text \<open>A snapshot that lists A twice, first acknowledged and then triggered.\<close>

definition snapshot_dup :: "incident list" where
  "snapshot_dup =
     [sample_incident ''C'' ''resolved'' 11 ''Queue'',
      sample_incident ''A'' ''acknowledged'' 13 ''Latency'',
      sample_incident ''A'' ''triggered'' 13 ''Latency'']"

text \<open>Two sessions: one whose call returns, one whose call raises.\<close>

definition rput_ok :: session where
  "rput_ok req = None"

definition rput_fails :: session where
  "rput_fails req = Some (RequestError ''timeout'')"


definition snapshot_2 :: "incident list" where
  "snapshot_2 =
     [sample_incident ''1'' ''resolved'' 1 ''Queue'',
      sample_incident ''2'' ''triggered'' 2 ''Latency'']"


section \<open>Properties of the reconciliation pass\<close>

lemma map_of_None_keys: "(map_of (tracked_buttons h) k = None) = (k \<notin> keys h)"
  by (simp add: keys_def map_of_eq_None_iff)

lemma keys_lookup: "k \<in> keys h \<Longrightarrow> \<exists>b. map_of (tracked_buttons h) k = Some b"
  by (cases "map_of (tracked_buttons h) k") (simp_all add: map_of_None_keys)

lemma keys_update [simp]:
  "keys (h\<lparr>tracked_buttons := AList.update k b (tracked_buttons h), added_entities := a\<rparr>) =
   insert k (keys h)"
  by (simp add: keys_def AList.dom_update)

lemma keys_delete [simp]:
  "keys (h\<lparr>tracked_buttons := AList.delete k (tracked_buttons h), remove_tasks := r\<rparr>) =
   keys h - {k}"
  by (simp add: keys_def AList.delete_keys flip: set_map)

lemma triggered_ids_Nil [simp]: "triggered_ids [] = {}"
  by (simp add: triggered_ids_def)

lemma triggered_ids_Cons [simp]:
  "triggered_ids (inc # incs) =
     (if inc_status inc = Some ''triggered'' then insert (inc_id inc) (triggered_ids incs)
      else triggered_ids incs)"
  by (auto simp: triggered_ids_def)

text \<open>The constructor raises for a null \<^verbatim>\<open>"service"\<close> and for nothing else.\<close>

lemma button_init_returns:
  "inc_service inc \<noteq> Null \<Longrightarrow> \<exists>b. button_init inc email = Inr b"
  by (cases "inc_service inc") (simp_all add: button_init_def)

lemma button_init_raises:
  "inc_service inc = Null \<Longrightarrow> button_init inc email = Inl AttributeError"
  by (simp add: button_init_def)

text \<open>One step of the first loop, when it goes on.\<close>

lemma find_triggered_step:
  assumes "find_triggered email (inc # incs) trig h = Inr r"
  obtains
    (skip) "inc_status inc \<noteq> Some ''triggered''" "find_triggered email incs trig h = Inr r"
  | (seen) "inc_status inc = Some ''triggered''" "inc_id inc \<in> keys h"
      "find_triggered email incs (insert (inc_id inc) trig) h = Inr r"
  | (new) b where "inc_status inc = Some ''triggered''" "inc_id inc \<notin> keys h"
      "button_init inc email = Inr b"
      "find_triggered email incs (insert (inc_id inc) trig)
         (h\<lparr>tracked_buttons := AList.update (inc_id inc) b (tracked_buttons h),
            added_entities := added_entities h @ [b]\<rparr>) = Inr r"
  using assms by (auto simp: map_of_None_keys split: if_splits sum.splits)

lemma find_triggered_trig:
  "find_triggered email incs trig h = Inr (trig', h') \<Longrightarrow> trig' = trig \<union> triggered_ids incs"
proof (induction incs arbitrary: trig h)
  case Nil
  then show ?case by simp
next
  case (Cons inc incs)
  from Cons.prems show ?case
    by (cases rule: find_triggered_step) (auto dest: Cons.IH)
qed

lemma find_triggered_keys:
  "find_triggered email incs trig h = Inr (trig', h') \<Longrightarrow> keys h' = keys h \<union> triggered_ids incs"
proof (induction incs arbitrary: trig h)
  case Nil
  then show ?case by simp
next
  case (Cons inc incs)
  from Cons.prems show ?case
    by (cases rule: find_triggered_step) (auto dest: Cons.IH)
qed

lemma find_triggered_distinct:
  "find_triggered email incs trig h = Inr (trig', h') \<Longrightarrow>
   distinct (map fst (tracked_buttons h)) \<Longrightarrow> distinct (map fst (tracked_buttons h'))"
proof (induction incs arbitrary: trig h)
  case Nil
  then show ?case by simp
next
  case (Cons inc incs)
  from Cons.prems(1) show ?case
  proof (cases rule: find_triggered_step)
    case (new b)
    from Cons.IH[OF new(4)] Cons.prems(2) show ?thesis
      by (simp add: AList.distinct_update)
  qed (use Cons in auto)
qed

lemma find_triggered_lookup:
  "find_triggered email incs trig h = Inr (trig', h') \<Longrightarrow>
   map_of (tracked_buttons h) k = Some b \<Longrightarrow> map_of (tracked_buttons h') k = Some b"
proof (induction incs arbitrary: trig h)
  case Nil
  then show ?case by simp
next
  case (Cons inc incs)
  from Cons.prems(1) show ?case
  proof (cases rule: find_triggered_step)
    case (new b')
    from new(2) Cons.prems(2) have "inc_id inc \<noteq> k"
      by (auto simp: map_of_None_keys [symmetric])
    with Cons.prems(2) Cons.IH[OF new(4)] show ?thesis
      by (simp add: AList.update_conv')
  qed (use Cons in auto)
qed

lemma find_triggered_noop:
  "triggered_ids incs \<subseteq> keys h \<Longrightarrow>
   find_triggered email incs trig h = Inr (trig \<union> triggered_ids incs, h)"
proof (induction incs arbitrary: trig)
  case Nil
  then show ?case by simp
next
  case (Cons inc incs)
  show ?case
  proof (cases "inc_status inc = Some ''triggered''")
    case True
    with Cons.prems have "inc_id inc \<in> keys h" and "triggered_ids incs \<subseteq> keys h"
      by auto
    with Cons.IH[of "insert (inc_id inc) trig"] True show ?thesis
      by (simp add: map_of_None_keys)
  next
    case False
    with Cons show ?thesis by simp
  qed
qed

lemma find_triggered_total:
  "\<forall>inc \<in> set incs. inc_status inc = Some ''triggered'' \<longrightarrow> inc_service inc \<noteq> Null \<Longrightarrow>
   \<exists>r. find_triggered email incs trig h = Inr r"
proof (induction incs arbitrary: trig h)
  case Nil
  then show ?case by simp
next
  case (Cons inc incs)
  show ?case
  proof (cases "inc_status inc = Some ''triggered'' \<and> map_of (tracked_buttons h) (inc_id inc) = None")
    case True
    with Cons.prems obtain b where "button_init inc email = Inr b"
      using button_init_returns[of inc email] by auto
    with True Cons.IH Cons.prems show ?thesis by simp
  next
    case False
    with Cons.IH Cons.prems show ?thesis by auto
  qed
qed

lemma remove_untriggered_keys:
  "remove_untriggered trig ks h = Inr h' \<Longrightarrow> keys h' = keys h - (set ks - trig)"
proof (induction ks arbitrary: h)
  case Nil
  then show ?case by simp
next
  case (Cons k ks)
  show ?case
  proof (cases "k \<in> trig")
    case True
    with Cons show ?thesis by auto
  next
    case False
    with Cons.prems obtain b where
      r: "remove_untriggered trig ks
               (h\<lparr>tracked_buttons := AList.delete k (tracked_buttons h),
                  remove_tasks := remove_tasks h @ [b]\<rparr>) = Inr h'"
      by (auto split: option.splits)
    from Cons.IH[OF r] have "keys h' = (keys h - {k}) - (set ks - trig)"
      by simp
    with False show ?thesis by auto
  qed
qed

lemma remove_untriggered_total:
  "distinct ks \<Longrightarrow> set ks \<subseteq> keys h \<Longrightarrow> \<exists>h'. remove_untriggered trig ks h = Inr h'"
proof (induction ks arbitrary: h)
  case Nil
  then show ?case by simp
next
  case (Cons k ks)
  show ?case
  proof (cases "k \<in> trig")
    case True
    with Cons show ?thesis by auto
  next
    case False
    from Cons.prems have "k \<in> keys h" by simp
    then obtain b where b: "map_of (tracked_buttons h) k = Some b"
      using keys_lookup by blast
    let ?h = "h\<lparr>tracked_buttons := AList.delete k (tracked_buttons h),
                  remove_tasks := remove_tasks h @ [b]\<rparr>"
    from Cons.prems have "set ks \<subseteq> keys ?h"
      by auto
    with Cons.IH[of ?h] Cons.prems obtain h' where "remove_untriggered trig ks ?h = Inr h'"
      by auto
    with False b show ?thesis by simp
  qed
qed

lemma remove_untriggered_distinct:
  "remove_untriggered trig ks h = Inr h' \<Longrightarrow> distinct (map fst (tracked_buttons h)) \<Longrightarrow>
   distinct (map fst (tracked_buttons h'))"
  by (induction ks arbitrary: h) (auto simp: AList.distinct_delete split: if_splits option.splits)

lemma remove_untriggered_lookup:
  "remove_untriggered trig ks h = Inr h' \<Longrightarrow> k \<in> trig \<Longrightarrow>
   map_of (tracked_buttons h') k = map_of (tracked_buttons h) k"
proof (induction ks arbitrary: h)
  case Nil
  then show ?case by simp
next
  case (Cons j ks)
  show ?case
  proof (cases "j \<in> trig")
    case True
    with Cons show ?thesis by auto
  next
    case False
    with Cons.prems obtain b where
      r: "remove_untriggered trig ks
               (h\<lparr>tracked_buttons := AList.delete j (tracked_buttons h),
                  remove_tasks := remove_tasks h @ [b]\<rparr>) = Inr h'"
      by (auto split: option.splits)
    from False Cons.prems have "k \<noteq> j" by auto
    with Cons.IH[OF r] Cons.prems show ?thesis by simp
  qed
qed

lemma remove_untriggered_noop:
  "set ks \<subseteq> trig \<Longrightarrow> remove_untriggered trig ks h = Inr h"
  by (induction ks) auto

text \<open>A pass that returns went through both loops.\<close>

lemma pass_returns:
  assumes "async_add_remove_buttons email incidents h = Inr h'"
  obtains h1 where
    "find_triggered email incidents {} h = Inr (triggered_ids incidents, h1)"
    "remove_untriggered (triggered_ids incidents) (map fst (tracked_buttons h1)) h1 = Inr h'"
proof -
  from assms obtain trig h1 where f: "find_triggered email incidents {} h = Inr (trig, h1)"
    and r: "remove_untriggered trig (map fst (tracked_buttons h1)) h1 = Inr h'"
    by (auto simp: async_add_remove_buttons_def split: sum.splits)
  from find_triggered_trig[OF f] have "trig = triggered_ids incidents" by simp
  with f r that show thesis by simp
qed

lemma pass_keys:
  assumes "async_add_remove_buttons email incidents h = Inr h'"
  shows "keys h' = triggered_ids incidents"
proof -
  from assms obtain h1 where
    f: "find_triggered email incidents {} h = Inr (triggered_ids incidents, h1)" and
    r: "remove_untriggered (triggered_ids incidents) (map fst (tracked_buttons h1)) h1 = Inr h'"
    by (rule pass_returns)
  from find_triggered_keys[OF f] have k: "keys h1 = keys h \<union> triggered_ids incidents" .
  from remove_untriggered_keys[OF r]
  have "keys h' = keys h1 - (keys h1 - triggered_ids incidents)"
    by (simp add: keys_def)
  with k show ?thesis by auto
qed

lemma pass_total:
  assumes "distinct (map fst (tracked_buttons h))"
    and "\<forall>inc \<in> set incidents. inc_status inc = Some ''triggered'' \<longrightarrow> inc_service inc \<noteq> Null"
  shows "\<exists>h'. async_add_remove_buttons email incidents h = Inr h'"
proof -
  from find_triggered_total[OF assms(2), of email "{}" h]
  obtain trig h1 where f: "find_triggered email incidents {} h = Inr (trig, h1)"
    by (cases) auto
  from find_triggered_distinct[OF f assms(1)]
  have "distinct (map fst (tracked_buttons h1))" .
  then obtain h' where "remove_untriggered trig (map fst (tracked_buttons h1)) h1 = Inr h'"
    using remove_untriggered_total[of "map fst (tracked_buttons h1)" h1 trig]
    by (auto simp: keys_def)
  with f show ?thesis by (simp add: async_add_remove_buttons_def)
qed

lemma pass_distinct:
  assumes "async_add_remove_buttons email incidents h = Inr h'"
    and "distinct (map fst (tracked_buttons h))"
  shows "distinct (map fst (tracked_buttons h'))"
proof -
  from assms(1) obtain h1 where
    f: "find_triggered email incidents {} h = Inr (triggered_ids incidents, h1)" and
    r: "remove_untriggered (triggered_ids incidents) (map fst (tracked_buttons h1)) h1 = Inr h'"
    by (rule pass_returns)
  from remove_untriggered_distinct[OF r find_triggered_distinct[OF f assms(2)]]
  show ?thesis .
qed

text \<open>The dict starts empty, so every state the passes reach has distinct keys.\<close>

lemma initial_hass_distinct: "distinct (map fst (tracked_buttons initial_hass))"
  by (simp add: initial_hass_def)

text \<open>
  A triggered entry with a null \<^verbatim>\<open>"service"\<close> ends the pass at the constructor:
  the entries after it are not looked at.
\<close>

lemma pass_aborts_on_null_service:
  "async_add_remove_buttons [] (null_service_incident # snapshot_AB) initial_hass =
     Inl (AttributeError, initial_hass)"
  by (simp add: async_add_remove_buttons_def null_service_incident_def initial_hass_def
      button_init_def)

subsection \<open>Completeness of a pass\<close>

text \<open>
  Claim C1. After a pass over a snapshot has returned, the keys of
  \<^verbatim>\<open>tracked_buttons\<close> are exactly the ids of the snapshot's triggered incidents:
  each of them has an object, and no other key is left. And the pass does return,
  whatever was tracked before (the keys of a dict are distinct), when no triggered
  entry has a null \<^verbatim>\<open>"service"\<close>.
\<close>

theorem reconcile_keys_exact:
  "(async_add_remove_buttons email incidents h = Inr h' \<longrightarrow>
      keys h' = triggered_ids incidents) \<and>
   (distinct (map fst (tracked_buttons h)) \<and>
    (\<forall>inc \<in> set incidents. inc_status inc = Some ''triggered'' \<longrightarrow> inc_service inc \<noteq> Null) \<longrightarrow>
      (\<exists>h1. async_add_remove_buttons email incidents h = Inr h1 \<and>
            keys h1 = triggered_ids incidents))"
  using pass_total pass_keys by blast

theorem reconcile_keys_exact_witness:
  "distinct (map fst (tracked_buttons tracking_B)) \<and>
   Null \<notin> inc_service ` set snapshot_AB \<and>
   async_add_remove_buttons [] snapshot_AB tracking_B = Inr after_AB \<and>
   keys after_AB = {Some ''A''} \<and>
   triggered_ids snapshot_AB = {Some ''A''}"
proof -
  have run: "async_add_remove_buttons [] snapshot_AB tracking_B = Inr after_AB"
    by (simp add: async_add_remove_buttons_def tracking_B_def after_AB_def initial_hass_def
        snapshot_AB_def sample_incident_def button_init_def get_default_def fstr_def
        fstr_int_def str_int_def str_nat.simps digit_char_def ack_prefix_def
        button_A_plain_def button_B_def sample_button_def)
  have "triggered_ids snapshot_AB = {Some ''A''}"
    by (simp add: snapshot_AB_def sample_incident_def)
  with run reconcile_keys_exact [of "[]" snapshot_AB tracking_B after_AB] show ?thesis
    by (simp add: tracking_B_def initial_hass_def snapshot_AB_def sample_incident_def)
qed

subsection \<open>Idempotence\<close>

text \<open>
  Claim C2. A second pass over the same snapshot, right after a first one, changes
  nothing: the state it returns is the state it was given, so no object is added
  (\<^verbatim>\<open>added_entities\<close> is as before), none is removed (\<^verbatim>\<open>remove_tasks\<close> is as
  before) and the tracked map is the same.
\<close>

theorem reconcile_idempotent:
  assumes "async_add_remove_buttons email incidents h = Inr h1"
  shows "async_add_remove_buttons email incidents h1 = Inr h1"
proof -
  from pass_keys[OF assms] have k: "keys h1 = triggered_ids incidents" .
  then have "find_triggered email incidents {} h1 = Inr (triggered_ids incidents, h1)"
    using find_triggered_noop[of incidents h1 email "{}"] by simp
  moreover have
    "remove_untriggered (triggered_ids incidents) (map fst (tracked_buttons h1)) h1 = Inr h1"
    using k by (intro remove_untriggered_noop) (simp add: keys_def)
  ultimately show ?thesis by (simp add: async_add_remove_buttons_def)
qed

theorem reconcile_idempotent_witness:
  "async_add_remove_buttons [] snapshot_AB tracking_B = Inr after_AB \<and>
   async_add_remove_buttons [] snapshot_AB after_AB = Inr after_AB"
proof -
  have first: "async_add_remove_buttons [] snapshot_AB tracking_B = Inr after_AB"
    by (simp add: async_add_remove_buttons_def tracking_B_def after_AB_def initial_hass_def
        snapshot_AB_def sample_incident_def button_init_def get_default_def fstr_def
        fstr_int_def str_int_def str_nat.simps digit_char_def ack_prefix_def
        button_A_plain_def button_B_def sample_button_def)
  from reconcile_idempotent [OF first] first show ?thesis by simp
qed

subsection \<open>Objects that stay\<close>

text \<open>
  Claim C9. An object that is tracked before a pass, under an id that the new
  snapshot still lists as triggered, is the same object after the pass: the dict
  holds under that id what it held before, so \<^verbatim>\<open>extra_state_attributes\<close> still
  returns the number, title and service name taken at creation, whatever the new
  snapshot says.
\<close>

theorem reconcile_keeps_tracked:
  assumes "async_add_remove_buttons email incidents h = Inr h'"
    and "map_of (tracked_buttons h) k = Some b"
    and "k \<in> triggered_ids incidents"
  shows "map_of (tracked_buttons h') k = Some b"
proof -
  from assms(1) obtain h1 where
    f: "find_triggered email incidents {} h = Inr (triggered_ids incidents, h1)" and
    r: "remove_untriggered (triggered_ids incidents) (map fst (tracked_buttons h1)) h1 = Inr h'"
    by (rule pass_returns)
  from find_triggered_lookup[OF f assms(2)]
  have "map_of (tracked_buttons h1) k = Some b" .
  with remove_untriggered_lookup[OF r assms(3)] show ?thesis by simp
qed

theorem reconcile_keeps_tracked_witness:
  "async_add_remove_buttons [] snapshot_B_retitled tracking_B = Inr tracking_B \<and>
   map_of (tracked_buttons tracking_B) (Some ''B'') = Some button_B \<and>
   Some ''B'' \<in> triggered_ids snapshot_B_retitled \<and>
   extra_state_attributes button_B = (Some ''B'', Some 12, Some ''CPU high'', Some ''Checkout'') \<and>
   button_init (hd snapshot_B_retitled) [] =
     Inr (sample_button ''B'' 120 ''CPU very high'' [] ''Acknowledge Incident #120'')"
proof -
  have p: "async_add_remove_buttons [] snapshot_B_retitled tracking_B = Inr tracking_B"
    by (simp add: async_add_remove_buttons_def tracking_B_def initial_hass_def
        snapshot_B_retitled_def sample_incident_def)
  have l: "map_of (tracked_buttons tracking_B) (Some ''B'') = Some button_B"
    by (simp add: tracking_B_def initial_hass_def)
  have t: "Some ''B'' \<in> triggered_ids snapshot_B_retitled"
    by (simp add: snapshot_B_retitled_def sample_incident_def)
  from reconcile_keeps_tracked [OF p l t] p l t show ?thesis
    by (simp add: extra_state_attributes_def button_B_def sample_button_def button_init_def
        snapshot_B_retitled_def sample_incident_def get_default_def fstr_def fstr_int_def
        str_int_def str_nat.simps digit_char_def ack_prefix_def)
qed

subsection \<open>A triggered entry without an id\<close>




section \<open>Properties of the button object\<close>

subsection \<open>Availability\<close>

lemma available_scan_find:
  "available_scan iid incs =
     (case find (\<lambda>inc. inc_id inc = iid) incs of
        None \<Rightarrow> False
      | Some inc \<Rightarrow> inc_status inc = Some ''triggered'')"
  by (induction incs) auto

lemma available_scan_first:
  "\<forall>inc \<in> set pre. inc_id inc \<noteq> iid \<Longrightarrow> inc_id e = iid \<Longrightarrow>
   available_scan iid (pre @ e # post) = (inc_status e = Some ''triggered'')"
  by (induction pre) auto

text \<open>
  Claim C6. \<^verbatim>\<open>available\<close> is true only if the snapshot holds an incident with the
  object's id and the status \<^verbatim>\<open>"triggered"\<close>; it is false when no incident has
  that id, and false when the incident found (the first with that id) has any other
  status.
\<close>

theorem available_only_if_triggered:
  "(available b incidents \<longrightarrow>
      (\<exists>inc \<in> set incidents. inc_id inc = incident_id b \<and> inc_status inc = Some ''triggered'')) \<and>
   ((\<forall>inc \<in> set incidents. inc_id inc \<noteq> incident_id b) \<longrightarrow> \<not> available b incidents) \<and>
   (\<forall>inc. find (\<lambda>inc. inc_id inc = incident_id b) incidents = Some inc \<and>
          inc_status inc \<noteq> Some ''triggered'' \<longrightarrow> \<not> available b incidents)"
proof (intro conjI impI allI)
  assume "available b incidents"
  then obtain inc where "find (\<lambda>inc. inc_id inc = incident_id b) incidents = Some inc"
    and "inc_status inc = Some ''triggered''"
    by (auto simp: available_def available_scan_find split: option.splits)
  then show "\<exists>inc \<in> set incidents. inc_id inc = incident_id b \<and> inc_status inc = Some ''triggered''"
    by (auto simp: find_Some_iff)
next
  assume "\<forall>inc \<in> set incidents. inc_id inc \<noteq> incident_id b"
  then have "find (\<lambda>inc. inc_id inc = incident_id b) incidents = None"
    by (simp add: find_None_iff)
  then show "\<not> available b incidents"
    by (simp add: available_def available_scan_find)
next
  fix inc
  assume "find (\<lambda>inc. inc_id inc = incident_id b) incidents = Some inc \<and>
          inc_status inc \<noteq> Some ''triggered''"
  then show "\<not> available b incidents"
    by (simp add: available_def available_scan_find)
qed

theorem available_only_if_triggered_witness:
  "available button_A snapshot_AB \<and>
   (\<exists>inc \<in> set snapshot_AB. inc_id inc = incident_id button_A \<and> inc_status inc = Some ''triggered'') \<and>
   incident_id button_A \<notin> inc_id ` set snapshot_2 \<and>
   \<not> available button_A snapshot_2 \<and>
   find (\<lambda>inc. inc_id inc = incident_id button_B) snapshot_AB =
     Some (sample_incident ''B'' ''acknowledged'' 12 ''CPU high'') \<and>
   inc_status (sample_incident ''B'' ''acknowledged'' 12 ''CPU high'') \<noteq> Some ''triggered'' \<and>
   \<not> available button_B snapshot_AB"
  using available_only_if_triggered [of button_A snapshot_AB]
    available_only_if_triggered [of button_A snapshot_2]
    available_only_if_triggered [of button_B snapshot_AB]
  by (simp add: available_def button_A_def button_B_def sample_button_def snapshot_AB_def
      snapshot_2_def sample_incident_def)

text \<open>
  Claim C10. When several entries share the id, the first one in snapshot order
  decides alone: \<^verbatim>\<open>available\<close> is true exactly when that entry is triggered,
  whatever follows it.
\<close>

theorem available_first_match:
  assumes "\<forall>inc \<in> set pre. inc_id inc \<noteq> incident_id b"
    and "inc_id e = incident_id b"
  shows "available b (pre @ e # post) = (inc_status e = Some ''triggered'')"
  using assms by (simp add: available_def available_scan_first)

theorem available_first_match_witness:
  "incident_id button_A \<notin> inc_id ` set [sample_incident ''C'' ''resolved'' 11 ''Queue''] \<and>
   inc_id (sample_incident ''A'' ''acknowledged'' 13 ''Latency'') = incident_id button_A \<and>
   snapshot_dup =
     [sample_incident ''C'' ''resolved'' 11 ''Queue''] @
     sample_incident ''A'' ''acknowledged'' 13 ''Latency'' #
     [sample_incident ''A'' ''triggered'' 13 ''Latency''] \<and>
   \<not> available button_A snapshot_dup"
  using available_first_match [of "[sample_incident ''C'' ''resolved'' 11 ''Queue'']" button_A
      "sample_incident ''A'' ''acknowledged'' 13 ''Latency''"
      "[sample_incident ''A'' ''triggered'' 13 ''Latency'']"]
  by (simp add: button_A_def sample_button_def snapshot_dup_def sample_incident_def)

subsection \<open>Identifier and name\<close>

text \<open>\<^verbatim>\<open>str\<close> of a natural number is its decimal numeral.\<close>

lemma digit_value_digit_char: "d < 10 \<Longrightarrow> digit_value (digit_char d) = d"
proof -
  assume "d < 10"
  then have "d \<in> {0, 1, 2, 3, 4, 5, 6, 7, 8, 9}" by auto
  then show ?thesis
    by (auto simp: digit_value_def digit_char_def)
qed

lemma dec_value_snoc: "dec_value (s @ [c]) = 10 * dec_value s + digit_value c"
  by (simp add: dec_value_def)

lemma dec_value_str_nat: "dec_value (str_nat n) = n"
proof (induction n rule: str_nat.induct)
  case (1 n)
  show ?case
  proof (cases "n < 10")
    case True
    then show ?thesis
      by (subst str_nat.simps) (simp add: dec_value_def digit_value_digit_char)
  next
    case False
    with 1 have "dec_value (str_nat (n div 10)) = n div 10" by simp
    with False show ?thesis
      by (subst str_nat.simps) (simp add: dec_value_snoc digit_value_digit_char)
  qed
qed

text \<open>
  Claim C8, as stated, fails on the identifier: the object of incident A has the
  unique id \<^verbatim>\<open>pagerduty_ack_A\<close>, not \<^verbatim>\<open>ack_A\<close>.
\<close>

theorem unique_id_counterexample:
  "button_init (sample_incident ''A'' ''triggered'' 13 ''Latency'') [] = Inr button_A_plain \<and>
   attr_unique_id button_A_plain = ''pagerduty_ack_A'' \<and>
   attr_unique_id button_A_plain \<noteq> ''ack_A''"
  by (simp add: button_init_def sample_incident_def button_A_plain_def sample_button_def
      get_default_def ack_prefix_def fstr_def fstr_int_def str_int_def str_nat.simps
      digit_char_def)

text \<open>
  Claim C8, amended. For an incident with id \<open>i\<close> and number \<open>n\<close>, the object the
  constructor makes has the unique id \<^verbatim>\<open>pagerduty_ack_\<close> followed by \<open>i\<close> and the
  name \<^verbatim>\<open>Acknowledge Incident #\<close> followed by \<open>n\<close> in decimal; and the constructor
  does make one unless the incident's \<^verbatim>\<open>"service"\<close> is null.
\<close>

theorem button_identity:
  assumes "inc_id inc = Some i"
    and "inc_incident_number inc = Some n"
  shows "(button_init inc email = Inr b \<longrightarrow>
            attr_unique_id b = ''pagerduty_ack_'' @ i \<and>
            attr_name b = ''Acknowledge Incident #'' @ str_int n) \<and>
         (inc_service inc \<noteq> Null \<longrightarrow> (\<exists>b'. button_init inc email = Inr b'))"
  using assms button_init_returns [of inc email]
  by (auto simp: button_init_def ack_prefix_def fstr_def fstr_int_def
      split: json_key.splits sum.splits)

theorem button_identity_witness:
  "inc_id (sample_incident ''A'' ''triggered'' 13 ''Latency'') = Some ''A'' \<and>
   inc_incident_number (sample_incident ''A'' ''triggered'' 13 ''Latency'') = Some 13 \<and>
   inc_service (sample_incident ''A'' ''triggered'' 13 ''Latency'') \<noteq> Null \<and>
   button_init (sample_incident ''A'' ''triggered'' 13 ''Latency'') ''oncall@example.com'' =
     Inr button_A \<and>
   attr_unique_id button_A = ''pagerduty_ack_A'' \<and>
   attr_name button_A = ''Acknowledge Incident #13''"
proof -
  have made: "button_init (sample_incident ''A'' ''triggered'' 13 ''Latency'')
      ''oncall@example.com'' = Inr button_A"
    by (simp add: button_init_def sample_incident_def button_A_def sample_button_def
        get_default_def ack_prefix_def fstr_def fstr_int_def str_int_def str_nat.simps
        digit_char_def)
  from button_identity [of "sample_incident ''A'' ''triggered'' 13 ''Latency''" "''A''" 13
      "''oncall@example.com''" button_A] made
  show ?thesis
    by (simp add: sample_incident_def str_int_def str_nat.simps digit_char_def)
qed

subsection \<open>The acknowledge action\<close>

text \<open>
  Claim C4. When the remote call returns, \<^verbatim>\<open>async_press\<close> succeeds and has asked
  for one coordinator refresh; when the call raises, \<^verbatim>\<open>async_press\<close> fails with the
  same error, asks for no refresh, and leaves the tracked objects and the add and
  remove logs as they were.
\<close>

theorem press_refresh_iff_success:
  "(rput (acknowledge_request b) = None \<longrightarrow>
      fst (async_press rput b h) = Inr () \<and>
      refresh_requests (snd (async_press rput b h)) = Suc (refresh_requests h)) \<and>
   (\<forall>e. rput (acknowledge_request b) = Some e \<longrightarrow>
      fst (async_press rput b h) = Inl e \<and>
      refresh_requests (snd (async_press rput b h)) = refresh_requests h \<and>
      tracked_buttons (snd (async_press rput b h)) = tracked_buttons h \<and>
      added_entities (snd (async_press rput b h)) = added_entities h \<and>
      remove_tasks (snd (async_press rput b h)) = remove_tasks h)"
  by (simp add: async_press_def acknowledge_incident_def async_request_refresh_def Let_def
      split: option.splits)

theorem press_refresh_iff_success_witness:
  "rput_ok (acknowledge_request button_B) = None \<and>
   fst (async_press rput_ok button_B tracking_B) = Inr () \<and>
   refresh_requests (snd (async_press rput_ok button_B tracking_B)) = 1 \<and>
   rput_fails (acknowledge_request button_B) = Some (RequestError ''timeout'') \<and>
   fst (async_press rput_fails button_B tracking_B) = Inl (RequestError ''timeout'') \<and>
   refresh_requests (snd (async_press rput_fails button_B tracking_B)) = 0 \<and>
   tracked_buttons (snd (async_press rput_fails button_B tracking_B)) = [(Some ''B'', button_B)]"
  using press_refresh_iff_success [of rput_ok button_B tracking_B]
    press_refresh_iff_success [of rput_fails button_B tracking_B]
  by (simp add: rput_ok_def rput_fails_def tracking_B_def initial_hass_def)

text \<open>
  Claim C5. One press issues exactly one \<^verbatim>\<open>rput\<close>, to \<^verbatim>\<open>/incidents/\<close> followed by
  the incident id, with the body \<^verbatim>\<open>{type: incident, status: acknowledged}\<close>; the
  headers hold \<^verbatim>\<open>From\<close> exactly when an operator email is configured (non-empty),
  and then nothing else. The call is not repeated, whether it returns or raises.
\<close>

theorem press_single_request:
  "rput_calls (snd (async_press rput b h)) = rput_calls h @ [acknowledge_request b] \<and>
   url (acknowledge_request b) = ''/incidents/'' @ fstr (incident_id b) \<and>
   json (acknowledge_request b) = [(''type'', ''incident''), (''status'', ''acknowledged'')] \<and>
   (''From'' \<in> fst ` set (headers (acknowledge_request b))) = (default_from_email b \<noteq> []) \<and>
   (default_from_email b \<noteq> [] \<longrightarrow>
      headers (acknowledge_request b) = [(''From'', default_from_email b)])"
  by (simp add: async_press_def acknowledge_incident_def async_request_refresh_def Let_def
      acknowledge_request_def split: option.splits)

theorem press_single_request_witness:
  "default_from_email button_A \<noteq> [] \<and>
   rput_calls (snd (async_press rput_fails button_A initial_hass)) =
     [\<lparr> url = ''/incidents/A'',
        json = [(''type'', ''incident''), (''status'', ''acknowledged'')],
        headers = [(''From'', ''oncall@example.com'')] \<rparr>] \<and>
   rput_calls (snd (async_press rput_ok button_B initial_hass)) =
     [\<lparr> url = ''/incidents/B'',
        json = [(''type'', ''incident''), (''status'', ''acknowledged'')],
        headers = [] \<rparr>]"
  using press_single_request [of rput_fails button_A initial_hass]
    press_single_request [of rput_ok button_B initial_hass]
  by (simp add: acknowledge_request_def button_A_def button_B_def sample_button_def
      initial_hass_def fstr_def)

section \<open>Properties of the startup sweep\<close>

text \<open>
  The dict comprehension runs over the entries in order and a later entry replaces
  an earlier one under the same unique id: the dict holds, for each unique id with
  the prefix, the last entry that has it.
\<close>

lemma find_snoc:
  "find P (xs @ [x]) =
     (case find P xs of None \<Rightarrow> (if P x then Some x else None) | Some y \<Rightarrow> Some y)"
  by (induction xs) auto

lemma find_fixed_key:
  "find (\<lambda>e. unique_id e = u \<and> A (unique_id e)) xs =
     (if A u then find (\<lambda>e. unique_id e = u) xs else None)"
  by (induction xs) auto

lemma existing_button_entities_distinct:
  "distinct (map fst d) \<Longrightarrow> distinct (map fst (existing_button_entities es d))"
  by (induction es arbitrary: d) (auto simp: AList.distinct_update)

lemma existing_button_entities_lookup:
  "map_of (existing_button_entities es d) u =
     (case find (\<lambda>e. unique_id e = u \<and> (unique_id e \<noteq> [] \<and> startswith (unique_id e) ack_prefix))
             (rev es) of
        None \<Rightarrow> map_of d u
      | Some e \<Rightarrow> Some e)"
proof (induction es arbitrary: d)
  case Nil
  then show ?case by simp
next
  case (Cons e es)
  show ?case
    by (cases "unique_id e \<noteq> [] \<and> startswith (unique_id e) ack_prefix")
      (auto simp: Cons.IH find_snoc AList.update_conv' split: option.splits)
qed

lemma existing_button_entities_set:
  "((u, r) \<in> set (existing_button_entities es [])) =
     (u = unique_id r \<and> startswith u ack_prefix \<and>
      find (\<lambda>e. unique_id e = unique_id r) (rev es) = Some r)"
proof -
  have ne: "startswith v ack_prefix \<Longrightarrow> v \<noteq> []" for v
    by (auto simp: startswith_def ack_prefix_def)
  have "((u, r) \<in> set (existing_button_entities es [])) =
        (map_of (existing_button_entities es []) u = Some r)"
    using existing_button_entities_distinct[of "[]" es] by simp
  also have "\<dots> = (find (\<lambda>e. unique_id e = u \<and>
        (unique_id e \<noteq> [] \<and> startswith (unique_id e) ack_prefix)) (rev es) = Some r)"
    by (simp add: existing_button_entities_lookup split: option.splits)
  also have "\<dots> = (u \<noteq> [] \<and> startswith u ack_prefix \<and>
        find (\<lambda>e. unique_id e = u) (rev es) = Some r)"
    by (simp add: find_fixed_key [where A = "\<lambda>v. v \<noteq> [] \<and> startswith v ack_prefix"])
  also have "\<dots> = (u = unique_id r \<and> startswith u ack_prefix \<and>
        find (\<lambda>e. unique_id e = unique_id r) (rev es) = Some r)"
    using ne by (auto simp: find_Some_iff)
  finally show ?thesis .
qed

lemma remove_orphaned_filter:
  "remove_orphaned cur d = map (\<lambda>p. entity_id (snd p)) (filter (\<lambda>p. fst p \<notin> cur) d)"
  by (induction cur d rule: remove_orphaned.induct) simp_all

lemma current_triggered_ids_derived:
  assumes "startswith u ack_prefix"
  shows "(u \<in> current_triggered_ids incs) =
         (drop (length ack_prefix) u \<in> fstr ` triggered_ids incs)"
proof -
  from assms obtain x where u: "u = ack_prefix @ x"
    by (auto simp: startswith_def prefix_def)
  have "current_triggered_ids incs = (\<lambda>x. ack_prefix @ x) ` fstr ` triggered_ids incs"
    by (auto simp: current_triggered_ids_def triggered_ids_def image_iff)
  then show ?thesis by (auto simp: u)
qed




text \<open>When the unique ids are pairwise distinct, every entry is the last with its own.\<close>

lemma find_Some_mem: "find P xs = Some x \<Longrightarrow> x \<in> set xs"
  by (induction xs) (auto split: if_splits)

lemma find_distinct_key:
  "distinct (map unique_id es) \<Longrightarrow> r \<in> set es \<Longrightarrow>
   find (\<lambda>e. unique_id e = unique_id r) es = Some r"
  by (induction es) (auto simp: image_iff)

lemma orphan_sweep_distinct_ids:
  assumes "distinct (map unique_id existing)"
    and "distinct (map entity_id existing)"
    and "r \<in> set existing"
  shows "(entity_id r \<in> set (orphan_sweep existing incidents)) =
         (startswith (unique_id r) ack_prefix \<and>
          drop (length ack_prefix) (unique_id r) \<notin> fstr ` triggered_ids incidents)"
proof -
  from assms(2) have inj: "inj_on entity_id (set existing)"
    by (simp add: distinct_map)
  have last: "find (\<lambda>e. unique_id e = unique_id x) (rev existing) = Some x"
    if "x \<in> set existing" for x
    using find_distinct_key[of "rev existing" x] assms(1) that
    by (simp add: rev_map [symmetric])
  have mem: "x \<in> set existing"
    if "find (\<lambda>e. unique_id e = unique_id x) (rev existing) = Some x" for x
    using find_Some_mem[OF that] by simp
  have "set (orphan_sweep existing incidents) =
        entity_id ` {x \<in> set existing. startswith (unique_id x) ack_prefix \<and>
           unique_id x \<notin> current_triggered_ids incidents}"
  proof -
    have "set (orphan_sweep existing incidents) =
        (\<lambda>p. entity_id (snd p)) `
          {p \<in> set (existing_button_entities existing []).
             fst p \<notin> current_triggered_ids incidents}"
      by (simp add: orphan_sweep_def remove_orphaned_filter)
    also have "\<dots> = entity_id ` {x \<in> set existing. startswith (unique_id x) ack_prefix \<and>
           unique_id x \<notin> current_triggered_ids incidents}"
      using last mem by (force simp: existing_button_entities_set image_iff)
    finally show ?thesis .
  qed
  then have "(entity_id r \<in> set (orphan_sweep existing incidents)) =
        (startswith (unique_id r) ack_prefix \<and> unique_id r \<notin> current_triggered_ids incidents)"
    using inj assms(3) by (auto dest: inj_onD)
  then show ?thesis
    using current_triggered_ids_derived[of "unique_id r" incidents] by auto
qed

end
